theory Spec2Isabelle
  imports Main "HOL-Library.Multiset"
begin

section \<open>The video library widget: option parsing and the readiness barrier\<close>

subsection \<open>Strings: \<open>String.prototype.split\<close> and \<open>String.prototype.trim\<close>\<close>

text \<open>
  The widget reads its \<open>ids\<close> option with \<open>options.ids.split(',').map(id => id.trim())\<close>.
  Strings are lists of characters. \<open>split_comma\<close> is JavaScript's \<open>split\<close> with the
  separator \<open>','\<close>: it cuts at every comma and keeps empty segments, so the empty string
  gives one empty segment. \<open>trim\<close> removes white space at both ends; \<open>is_ws\<close> lists the
  white-space characters that fit in one \<open>char\<close> (tab, line feed, vertical tab, form feed,
  carriage return, space, no-break space).
\<close>

fun split_comma :: "string \<Rightarrow> string list" where
  "split_comma [] = [[]]"
| "split_comma (c # cs) =
     (if c = CHR '','' then [] # split_comma cs
      else (case split_comma cs of
              [] \<Rightarrow> [[c]]
            | w # ws \<Rightarrow> (c # w) # ws))"

definition is_ws :: "char \<Rightarrow> bool" where
  "is_ws c = (of_char c \<in> {9, 10, 11, 12, 13, 32, 160 :: nat})"

definition trim :: "string \<Rightarrow> string" where
  "trim s = rev (dropWhile is_ws (rev (dropWhile is_ws s)))"

subsection \<open>Images and promises\<close>

text \<open>
  An image element of the document: its identity \<open>elem\<close> and the two properties that
  \<open>onImagesLoaded\<close> reads.
\<close>

record img =
  elem :: nat
  naturalWidth :: nat
  complete :: bool

datatype pstate = Pending | Fulfilled | Rejected

text \<open>
  \<open>Promise.all(promises)\<close>: fulfilled when every promise is fulfilled (at once for the empty
  list), rejected as soon as one is rejected, pending otherwise.
\<close>

definition Promise_all :: "(nat \<times> pstate) list \<Rightarrow> pstate" where
  "Promise_all ps =
     (if list_ex (\<lambda>p. snd p = Rejected) ps then Rejected
      else if list_all (\<lambda>p. snd p = Fulfilled) ps then Fulfilled
      else Pending)"

text \<open>
  The value of one call of \<open>onImagesLoaded\<close>: one promise for each image that passes the
  filter \<open>!img.naturalWidth || !img.complete\<close> (\<open>must_wait\<close>), tagged with the element
  whose \<open>load\<close> and \<open>error\<close> events it listens to, and the state of their \<open>Promise.all\<close>.
\<close>

record barrier =
  waits :: "(nat \<times> pstate) list"
  outcome :: pstate

definition must_wait :: "img \<Rightarrow> bool" where
  "must_wait i = (naturalWidth i = 0 \<or> \<not> complete i)"

definition onImagesLoaded :: "img list \<Rightarrow> barrier" where
  "onImagesLoaded images =
     (let promises = map (\<lambda>i. (elem i, Pending)) (filter must_wait images)
      in \<lparr>waits = promises, outcome = Promise_all promises\<rparr>)"

text \<open>
  An image event on element \<open>k\<close> runs the listeners registered on \<open>k\<close>: the \<open>load\<close> listener
  calls \<open>resolve(img)\<close>, the \<open>error\<close> listener calls \<open>reject(img)\<close>. A promise that is already
  settled ignores both, and so does a settled \<open>Promise.all\<close>.
\<close>

definition settle :: "bool \<Rightarrow> nat \<Rightarrow> barrier \<Rightarrow> barrier" where
  "settle loaded k b =
     (let ws = map (\<lambda>(e, st). if e = k \<and> st = Pending
                                then (e, if loaded then Fulfilled else Rejected)
                                else (e, st)) (waits b)
      in \<lparr>waits = ws,
          outcome = (if outcome b = Pending then Promise_all ws else outcome b)\<rparr>)"

subsection \<open>The widget\<close>

datatype notification = RENDER | PLAYER_READY | PLAYERS_READY

record video_options =
  opt_ids :: string
  layout :: string
  showTitle :: bool
  showDuration :: bool
  playInline :: bool
  useLoader :: bool

definition video_defaults :: video_options where
  "video_defaults =
     \<lparr>opt_ids = '''', layout = ''grid'', showTitle = True, showDuration = True,
      playInline = False, useLoader = True\<rparr>"

text \<open>
  The fields of a widget instance that the barrier reads and writes: \<open>this.ids\<close>,
  \<open>this.numberPlayersReady\<close>, \<open>this.players\<close>, whether the root element carries the class
  \<open>hidden\<close>, the barriers whose \<open>then\<close> callback is \<open>onPlayersReady\<close>, and the notifications
  triggered on the root element so far, oldest first. The counter is a natural number:
  the JavaScript number counts exactly far beyond the length of any array.
\<close>

record widget =
  ids :: "string list"
  numberPlayersReady :: nat
  players :: "string list"
  hidden :: bool
  barriers :: "barrier list"
  emitted :: "notification list"

text \<open>
  \<open>initialize\<close> in two steps: the parsing of the \<open>ids\<close> option, and the rest of the function
  on the parsed list (counter set to zero, root element hidden, \<open>render\<close> which triggers
  the render notification). The layout and \<open>playInline\<close> fall-backs and the loader touch
  only fields and DOM nodes that the barrier never reads.
\<close>

definition parse_ids :: "video_options \<Rightarrow> string list" where
  "parse_ids opts = map trim (split_comma (opt_ids opts))"

definition widget_with_ids :: "string list \<Rightarrow> widget" where
  "widget_with_ids xs =
     \<lparr>ids = xs, numberPlayersReady = 0, players = [], hidden = True,
      barriers = [], emitted = [RENDER]\<rparr>"

definition VideoLibrary_initialize :: "video_options \<Rightarrow> widget" where
  "VideoLibrary_initialize opts = widget_with_ids (parse_ids opts)"

definition createPlayers :: "widget \<Rightarrow> widget" where
  "createPlayers w = w\<lparr>players := map (\<lambda>videoId. videoId) (ids w)\<rparr>"

definition onPlayersReady :: "widget \<Rightarrow> widget" where
  "onPlayersReady w = w\<lparr>hidden := False, emitted := emitted w @ [PLAYERS_READY]\<rparr>"

text \<open>
  \<open>onPlayerReady\<close>, given the images that \<open>document.querySelectorAll('img')\<close> returns at
  that moment: the notification of the one player, then the counter and the check. The
  updates of titles, durations, thumbnails and backgrounds in between write to DOM nodes
  only. The \<open>then\<close> callback of a promise that is fulfilled at creation runs in the
  microtask that follows, before any other event is handled: the model runs it at once.
\<close>

definition onPlayerReady :: "img list \<Rightarrow> widget \<Rightarrow> widget" where
  "onPlayerReady images w =
     (let w1 = w\<lparr>emitted := emitted w @ [PLAYER_READY],
                 numberPlayersReady := numberPlayersReady w + 1\<rparr>
      in if numberPlayersReady w1 = length (ids w1)
         then (let b = onImagesLoaded images;
                   w2 = w1\<lparr>barriers := barriers w1 @ [b]\<rparr>
               in if outcome b = Fulfilled then onPlayersReady w2 else w2)
         else w1)"

text \<open>
  An image event settles the promises that listen on that element; every barrier that
  becomes fulfilled by it runs its callback \<open>onPlayersReady\<close>.
\<close>

definition image_event :: "bool \<Rightarrow> nat \<Rightarrow> widget \<Rightarrow> widget" where
  "image_event loaded k w =
     (let bs = map (settle loaded k) (barriers w);
          newly = length (filter (\<lambda>(b, b'). outcome b = Pending \<and> outcome b' = Fulfilled)
                            (zip (barriers w) bs))
      in (onPlayersReady ^^ newly) (w\<lparr>barriers := bs\<rparr>))"

text \<open>The signals that reach a widget, and a widget's run over a sequence of them.\<close>

datatype signal = PlayerReady "img list" | ImgLoad nat | ImgError nat

fun deliver :: "signal \<Rightarrow> widget \<Rightarrow> widget" where
  "deliver (PlayerReady images) w = onPlayerReady images w"
| "deliver (ImgLoad k) w = image_event True k w"
| "deliver (ImgError k) w = image_event False k w"

fun run :: "signal list \<Rightarrow> widget \<Rightarrow> widget" where
  "run [] w = w"
| "run (s # ss) w = run ss (deliver s w)"

definition fired :: "widget \<Rightarrow> nat" where
  "fired w = count_list (emitted w) PLAYERS_READY"

text \<open>
  Bookkeeping over a sequence of signals: how many child-ready signals it holds, and how
  the promise of element \<open>k\<close> ends after it (settled by the first \<open>load\<close> or \<open>error\<close>
  event on \<open>k\<close>, pending if there is none).
\<close>

fun ready_count :: "signal list \<Rightarrow> nat" where
  "ready_count [] = 0"
| "ready_count (PlayerReady images # ss) = Suc (ready_count ss)"
| "ready_count (s # ss) = ready_count ss"

fun first_settle :: "nat \<Rightarrow> signal list \<Rightarrow> pstate" where
  "first_settle k [] = Pending"
| "first_settle k (s # ss) =
     (if s = ImgLoad k then Fulfilled
      else if s = ImgError k then Rejected
      else first_settle k ss)"

definition waits_after :: "signal list \<Rightarrow> (nat \<times> pstate) list \<Rightarrow> (nat \<times> pstate) list" where
  "waits_after ss ws = map (\<lambda>(e, st). (e, if st = Pending then first_settle e ss else st)) ws"

text \<open>
  The invariant of a widget: a barrier exists only once the counter has reached the
  number of ids, there is at most one, the completion notification was triggered once
  for each fulfilled barrier, and each barrier's state is that of its promises.
\<close>

definition good :: "widget \<Rightarrow> bool" where
  "good w =
     ((barriers w \<noteq> [] \<longrightarrow> 0 < length (ids w) \<and> length (ids w) \<le> numberPlayersReady w)
      \<and> length (barriers w) \<le> 1
      \<and> fired w = length (filter (\<lambda>b. outcome b = Fulfilled) (barriers w))
      \<and> (\<forall>b \<in> set (barriers w). outcome b = Promise_all (waits b)))"

section \<open>The article navigation widget: filtering, sorting, neighbours\<close>

subsection \<open>Entities, settings and the plugin instance\<close>

text \<open>
  Categories, sections and articles are plain objects of the REST response; the code
  reads the same properties from all of them. \<open>oid\<close> is the property \<open>id\<close>, and
  \<open>draft\<close> holds whether the property \<open>draft\<close> is the value \<open>true\<close> (the default
  predicates test \<open>draft !== true\<close>).
\<close>

record obj =
  oid :: int
  position :: int
  draft :: bool
  section_id :: int
  category_id :: int

record collection =
  categories :: "obj list"
  sections :: "obj list"
  articles :: "obj list"

datatype objectType = Categories | Sections | Articles

text \<open>
  A function value of the configuration, seen through the two ways the code calls it:
  as the callback of \<open>Array.prototype.filter\<close> (element, index, array; the result read
  as a truth value) and as the comparator of \<open>Array.prototype.sort\<close> (the result read as
  a number, of which only the sign matters).
\<close>

record jsfun =
  as_predicate :: "obj \<Rightarrow> nat \<Rightarrow> obj list \<Rightarrow> bool"
  as_comparator :: "obj \<Rightarrow> obj \<Rightarrow> int"

text \<open>
  What \<open>options.filter[objectType]\<close> or \<open>options.sort[objectType]\<close> can hold: no own
  property, \<open>null\<close>, a function, a string, or any other value.
\<close>

datatype setting = Absent | Null | Function jsfun | Name string | Other

fun hasOwnProperty :: "setting \<Rightarrow> bool" where
  "hasOwnProperty Absent = False"
| "hasOwnProperty v = True"

fun is_null :: "setting \<Rightarrow> bool" where
  "is_null Null = True"
| "is_null v = False"

datatype jsval = JNumber int | JString string | JNull

record nav_options =
  articleId :: jsval
  filter_opt :: "objectType \<Rightarrow> setting"
  sort_opt :: "objectType \<Rightarrow> setting"
  sortOrder :: string

text \<open>
  The plugin instance and the globals it reads: \<open>this.options\<close> (with \<open>options.filter\<close>
  and \<open>options.sort\<close> objects), the functions among the properties of the global \<open>Util\<close>
  (\<open>None\<close> where \<open>typeof Util[name]\<close> is not \<open>'function'\<close>), and the instance members
  \<open>this.sortByPosition\<close> and \<open>this.sortByName\<close> (\<open>None\<close> where undefined).
\<close>

record plugin =
  options :: nav_options
  Util :: "string \<Rightarrow> jsfun option"
  this_sortByPosition :: "jsfun option"
  this_sortByName :: "jsfun option"

subsection \<open>Array methods\<close>

text \<open>
  \<open>Array.prototype.filter\<close> returns a new array with the elements whose callback result is
  truthy, in order.
\<close>

fun filter_from :: "jsfun \<Rightarrow> obj list \<Rightarrow> nat \<Rightarrow> obj list \<Rightarrow> obj list" where
  "filter_from f arr i [] = []"
| "filter_from f arr i (x # xs) =
     (if as_predicate f x i arr then x # filter_from f arr (Suc i) xs
      else filter_from f arr (Suc i) xs)"

definition Array_filter :: "jsfun \<Rightarrow> obj list \<Rightarrow> obj list" where
  "Array_filter f xs = filter_from f xs 0 xs"

text \<open>
  \<open>Array.prototype.sort\<close> is stable. With a comparator, \<open>a\<close> stays before \<open>b\<close> unless the
  comparator puts \<open>b\<close> first; for a consistent comparator the result is the stable sorted
  arrangement, computed here by insertion. Without a comparator the elements are compared
  by their string conversions, which are equal for plain objects, so the order is kept.
\<close>

fun insert_by :: "(obj \<Rightarrow> obj \<Rightarrow> int) \<Rightarrow> obj \<Rightarrow> obj list \<Rightarrow> obj list" where
  "insert_by cmp x [] = [x]"
| "insert_by cmp x (y # ys) =
     (if cmp x y \<le> 0 then x # y # ys else y # insert_by cmp x ys)"

fun Array_sort :: "jsfun option \<Rightarrow> obj list \<Rightarrow> obj list" where
  "Array_sort None xs = xs"
| "Array_sort (Some f) xs = foldr (insert_by (as_comparator f)) xs []"

text \<open>\<open>xs.splice(i, 1)\<close> removes the element at index \<open>i\<close>.\<close>

definition splice1 :: "nat \<Rightarrow> 'a list \<Rightarrow> 'a list" where
  "splice1 i xs = take i xs @ drop (Suc i) xs"

subsection \<open>Filtering and sorting by object type\<close>

text \<open>
  \<open>_filterObjects\<close>. The first component of the result tells whether the returned array is
  a new one (made by \<open>filter\<close>) or the argument itself. The guard reads
  \<open>options.filter.hasOwnProperty(objectType) && options.sort[objectType] !== null\<close>.
\<close>

definition filterObjects :: "plugin \<Rightarrow> obj list \<Rightarrow> objectType \<Rightarrow> bool \<times> obj list" where
  "filterObjects this objects objectType =
     (if hasOwnProperty (filter_opt (options this) objectType)
         \<and> \<not> is_null (sort_opt (options this) objectType)
      then (case filter_opt (options this) objectType of
              Function f \<Rightarrow> (True, Array_filter f objects)
            | Name method \<Rightarrow>
                (case Util this method of
                   Some f \<Rightarrow> (True, Array_filter f objects)
                 | None \<Rightarrow> (False, objects))
            | _ \<Rightarrow> (False, objects))
      else (False, objects))"

definition defaultSortingFunctions :: "plugin \<Rightarrow> objectType \<Rightarrow> jsfun option" where
  "defaultSortingFunctions this objectType =
     (case objectType of
        Categories \<Rightarrow> this_sortByPosition this
      | Sections \<Rightarrow> this_sortByPosition this
      | Articles \<Rightarrow> this_sortByName this)"

text \<open>\<open>_sortObjects\<close> sorts its argument in place and returns it.\<close>

definition sortObjects :: "plugin \<Rightarrow> obj list \<Rightarrow> objectType \<Rightarrow> obj list" where
  "sortObjects this objects objectType =
     (if hasOwnProperty (sort_opt (options this) objectType)
         \<and> \<not> is_null (sort_opt (options this) objectType)
      then (case sort_opt (options this) objectType of
              Function f \<Rightarrow> Array_sort (Some f) objects
            | Name method \<Rightarrow>
                (case Util this method of
                   Some f \<Rightarrow> Array_sort (Some f) objects
                 | None \<Rightarrow> Array_sort (defaultSortingFunctions this objectType) objects)
            | _ \<Rightarrow> Array_sort (defaultSortingFunctions this objectType) objects)
      else Array_sort (defaultSortingFunctions this objectType) objects)"

subsection \<open>Sorting the articles of a collection\<close>

text \<open>
  The inner loop \<open>var i = articles.length; while (i--) { ... }\<close> for one section: \<open>i\<close> is
  the value of the counter before the decrement, the pair is the article pool and the
  accumulator \<open>sortedArticles\<close>. The loop starts at the length of the pool and a splice
  removes the element at the counter, so the index read is always inside the pool.
\<close>

fun take_section :: "int \<Rightarrow> nat \<Rightarrow> obj list \<times> obj list \<Rightarrow> obj list \<times> obj list" where
  "take_section sid 0 (pool, acc) = (pool, acc)"
| "take_section sid (Suc i) (pool, acc) =
     (let article = pool ! i
      in if section_id article = sid
         then take_section sid i (splice1 i pool, acc @ [article])
         else take_section sid i (pool, acc))"

text \<open>The callback of the inner \<open>forEach\<close>, over the sections.\<close>

definition each_section :: "obj \<Rightarrow> obj \<Rightarrow> obj list \<times> obj list \<Rightarrow> obj list \<times> obj list" where
  "each_section category section st =
     (if category_id section = oid category
      then take_section (oid section) (length (fst st)) st
      else st)"

text \<open>
  The callback of the outer \<open>forEach\<close>, over the categories: it sorts the sections array
  in place again and walks it. The state is the sections array, the article pool and the
  accumulator.
\<close>

definition each_category ::
  "plugin \<Rightarrow> obj \<Rightarrow> obj list \<times> obj list \<times> obj list \<Rightarrow> obj list \<times> obj list \<times> obj list" where
  "each_category this category st =
     (let secs = sortObjects this (fst st) Sections
      in (secs, fold (each_section category) secs (snd st)))"

text \<open>
  \<open>_sortArticles\<close> returns the sorted list; the second component is the collection as the
  caller finds it afterwards. An array that \<open>_filterObjects\<close> returned as it was is the
  caller's own array, so \<open>reverse\<close>, \<open>sort\<close> and \<open>splice\<close> change the caller's array; a
  filtered array is a copy. The three arrays of a collection are distinct objects.
\<close>

definition sortArticles :: "plugin \<Rightarrow> collection \<Rightarrow> obj list \<times> collection" where
  "sortArticles this collection =
     (let (copy_c, cs) = filterObjects this (categories collection) Categories;
          categories1 = rev cs;
          (copy_s, ss) = filterObjects this (sections collection) Sections;
          sections1 = rev ss;
          (copy_a, arts0) = filterObjects this (articles collection) Articles;
          articles1 = sortObjects this arts0 Articles;
          categories2 = sortObjects this categories1 Categories;
          (sections2, articles2, sortedArticles) =
             fold (each_category this) categories2 (sections1, articles1, [])
      in (if sortOrder (options this) = ''desc'' then sortedArticles else rev sortedArticles,
          \<lparr>categories = (if copy_c then categories collection else categories2),
           sections = (if copy_s then sections collection else sections2),
           articles = (if copy_a then articles collection else articles2)\<rparr>))"

subsection \<open>Locating the current article and its neighbours\<close>

datatype 'a jsres = Undefined | JsNull | Value 'a

text \<open>\<open>articles[i].id === options.articleId\<close>: the ids of the REST response are numbers.\<close>

definition strict_eq :: "int \<Rightarrow> jsval \<Rightarrow> bool" where
  "strict_eq n v = (v = JNumber n)"

text \<open>Reading an array at an index: \<open>undefined\<close> outside the array.\<close>

definition element :: "'a list \<Rightarrow> nat \<Rightarrow> 'a jsres" where
  "element xs i = (if i < length xs then Value (xs ! i) else Undefined)"

text \<open>
  The loop \<open>for (var i = 0; i < articles.length; i++)\<close> of \<open>render\<close>, from counter \<open>i\<close>:
  \<open>None\<close> when \<open>index\<close> stays undefined.
\<close>

function index_loop :: "jsval \<Rightarrow> obj list \<Rightarrow> nat \<Rightarrow> nat option" where
  "index_loop aid arts i =
     (if i < length arts
      then (if strict_eq (oid (arts ! i)) aid then Some i
            else index_loop aid arts (Suc i))
      else None)"
  by pat_completeness auto
termination
  by (relation "measure (\<lambda>(aid, arts, i). length arts - i)") auto

declare index_loop.simps [simp del]

record render_data =
  currentArticle :: "obj jsres"
  previousArticle :: "obj jsres"
  nextArticle :: "obj jsres"

text \<open>
  The template data that \<open>render\<close> computes. With \<open>index\<close> undefined, \<open>articles[index]\<close> is
  undefined and both comparisons \<open>index - 1 >= 0\<close> and \<open>index + 1 < articles.length\<close>
  are false.
\<close>

definition render :: "plugin \<Rightarrow> collection \<Rightarrow> render_data" where
  "render this collection =
     (let arts = fst (sortArticles this collection);
          index = index_loop (articleId (options this)) arts 0
      in \<lparr>currentArticle =
            (case index of None \<Rightarrow> Undefined | Some i \<Rightarrow> element arts i),
          previousArticle =
            (case index of
               None \<Rightarrow> JsNull
             | Some i \<Rightarrow> if int i - 1 \<ge> 0 then element arts (i - 1) else JsNull),
          nextArticle =
            (case index of
               None \<Rightarrow> JsNull
             | Some i \<Rightarrow> if i + 1 < length arts then element arts (i + 1) else JsNull)\<rparr>)"

subsection \<open>The default configuration\<close>

text \<open>
  The default predicates \<open>function(x) { return x.draft !== true; }\<close>. Called as a
  comparator such a function returns a boolean, read as the number 1 or 0.
\<close>

definition not_draft :: jsfun where
  "not_draft =
     \<lparr>as_predicate = (\<lambda>x i arr. \<not> draft x),
      as_comparator = (\<lambda>a b. if draft a then 0 else 1)\<rparr>"

definition nav_defaults :: nav_options where
  "nav_defaults =
     \<lparr>articleId = JNull,
      filter_opt = (\<lambda>objectType. Function not_draft),
      sort_opt = (\<lambda>objectType. Name ''sortByPosition''),
      sortOrder = ''asc''\<rparr>"

text \<open>
  Modelled from the spec: \<open>Util.sortByPosition\<close> is a member of the global \<open>Util\<close>, whose
  source is not among the files of the widget. The spec gives the default comparator of
  all three groups as ascending position. Its result as a filter callback is not
  described; no statement below depends on it.
\<close>

definition sortByPosition :: jsfun where
  "sortByPosition =
     \<lparr>as_predicate = (\<lambda>x i arr. False),
      as_comparator = (\<lambda>a b. position a - position b)\<rparr>"

text \<open>
  Modelled from the spec: the global \<open>Util\<close> as far as the spec describes the functions
  that a sort or filter setting can name, that is \<open>sortByPosition\<close> alone.
\<close>

definition Util_spec :: "string \<Rightarrow> jsfun option" where
  "Util_spec name = (if name = ''sortByPosition'' then Some sortByPosition else None)"

text \<open>
  The straightforward forward two-level group-by of the spec, to compare with
  \<open>sortArticles\<close>: categories in sorted order, within each category its sections in
  sorted order, within each section its matching articles in sorted order, each article
  consumed from the pool when it is emitted.
\<close>

fun group_sections :: "obj \<Rightarrow> obj list \<Rightarrow> obj list \<times> obj list \<Rightarrow> obj list \<times> obj list" where
  "group_sections category [] st = st"
| "group_sections category (s # ss) (pool, acc) =
     (if category_id s = oid category
      then group_sections category ss
             (filter (\<lambda>a. section_id a \<noteq> oid s) pool,
              acc @ filter (\<lambda>a. section_id a = oid s) pool)
      else group_sections category ss (pool, acc))"

definition forward_group_by :: "plugin \<Rightarrow> collection \<Rightarrow> obj list" where
  "forward_group_by this collection =
     (let cs = sortObjects this (snd (filterObjects this (categories collection) Categories))
                 Categories;
          ss = sortObjects this (snd (filterObjects this (sections collection) Sections))
                 Sections;
          pool = sortObjects this (snd (filterObjects this (articles collection) Articles))
                 Articles
      in snd (fold (\<lambda>category. group_sections category ss) cs (pool, [])))"

subsection \<open>The documented example\<close>

text \<open>
  The collection of the spec's example: one category, its two sections at positions 1 and
  2, one article in each; and the plugin instance for given options, with the \<open>Util\<close> of
  the spec and no \<open>sortByPosition\<close> or \<open>sortByName\<close> member of its own (the widget's
  source defines neither).
\<close>

definition category_1 :: obj where
  "category_1 = \<lparr>oid = 1, position = 1, draft = False, section_id = 0, category_id = 0\<rparr>"

definition section_10 :: obj where
  "section_10 = \<lparr>oid = 10, position = 1, draft = False, section_id = 0, category_id = 1\<rparr>"

definition section_11 :: obj where
  "section_11 = \<lparr>oid = 11, position = 2, draft = False, section_id = 0, category_id = 1\<rparr>"

definition article_100 :: obj where
  "article_100 = \<lparr>oid = 100, position = 1, draft = False, section_id = 10, category_id = 0\<rparr>"

definition article_101 :: obj where
  "article_101 = \<lparr>oid = 101, position = 1, draft = False, section_id = 11, category_id = 0\<rparr>"

definition example_collection :: collection where
  "example_collection =
     \<lparr>categories = [category_1],
      sections = [section_10, section_11],
      articles = [article_100, article_101]\<rparr>"

definition plugin_with :: "nav_options \<Rightarrow> plugin" where
  "plugin_with opts =
     \<lparr>options = opts, Util = Util_spec, this_sortByPosition = None, this_sortByName = None\<rparr>"

text \<open>
  Variations of the example: an article whose section is not in the collection, a draft
  article, and options without filters and with \<open>sort.articles\<close> set to \<open>null\<close>.
\<close>

definition article_102 :: obj where
  "article_102 = \<lparr>oid = 102, position = 2, draft = False, section_id = 99, category_id = 0\<rparr>"

definition unfiltered :: nav_options where
  "unfiltered = nav_defaults\<lparr>filter_opt := (\<lambda>objectType. Absent)\<rparr>"

definition null_article_sort :: nav_options where
  "null_article_sort =
     nav_defaults\<lparr>sort_opt := (\<lambda>objectType. case objectType of
                                  Articles \<Rightarrow> Null
                                | _ \<Rightarrow> Name ''sortByPosition'')\<rparr>"

definition draft_100 :: obj where
  "draft_100 = article_100\<lparr>draft := True\<rparr>"

text \<open>
  A comparator that a caller can pass in \<open>options.sort\<close>:
  \<open>function(a, b) { return a.position - b.position; }\<close> (as a filter callback its
  result would be read as a truth value, which no statement below uses).
\<close>

definition compare_positions :: jsfun where
  "compare_positions =
     \<lparr>as_predicate = (\<lambda>x i arr. False),
      as_comparator = (\<lambda>a b. position a - position b)\<rparr>"

definition custom_sort :: nav_options where
  "custom_sort = nav_defaults\<lparr>sort_opt := (\<lambda>objectType. Function compare_positions)\<rparr>"

section \<open>Properties of the video library widget\<close>

subsection \<open>The parsed id list\<close>

lemma split_comma_nonempty: "split_comma s \<noteq> []"
  by (induction s) (auto split: list.splits)

text \<open>
  Claim C9. Whatever the \<open>ids\<close> option holds, splitting it at commas and trimming each
  segment gives at least one id; the default empty string gives exactly one id, the
  empty string.
\<close>

theorem parse_ids_at_least_one:
  "1 \<le> length (parse_ids opts) \<and> parse_ids video_defaults = ['''']"
proof -
  have "length (split_comma (opt_ids opts)) \<noteq> 0"
    using split_comma_nonempty by simp
  then have "1 \<le> length (parse_ids opts)"
    by (simp add: parse_ids_def Suc_le_eq)
  moreover have "parse_ids video_defaults = ['''']"
    by (simp add: parse_ids_def video_defaults_def trim_def)
  ultimately show ?thesis by simp
qed

subsection \<open>The readiness barrier\<close>

lemma run_append: "run (ss @ ts) w = run ts (run ss w)"
  by (induction ss arbitrary: w) auto

lemma fired_onPlayersReady_pow [simp]: "fired ((onPlayersReady ^^ n) w) = fired w + n"
  by (induction n) (auto simp: fired_def onPlayersReady_def)

lemma fields_onPlayersReady_pow [simp]:
  "barriers ((onPlayersReady ^^ n) w) = barriers w"
  "ids ((onPlayersReady ^^ n) w) = ids w"
  "numberPlayersReady ((onPlayersReady ^^ n) w) = numberPlayersReady w"
  by (induction n) (auto simp: onPlayersReady_def)

lemma outcome_settle_settled:
  "outcome b \<noteq> Pending \<Longrightarrow> outcome (settle l k b) = outcome b"
  by (simp add: settle_def Let_def)

lemma Promise_all_step:
  assumes "Promise_all ws \<noteq> Pending"
  shows "Promise_all (map (\<lambda>(e, st). if e = k \<and> st = Pending then (e, v) else (e, st)) ws)
           = Promise_all ws"
proof (cases "list_ex (\<lambda>p. snd p = Rejected) ws")
  case True
  then obtain p where "p \<in> set ws" "snd p = Rejected" by (auto simp: list_ex_iff)
  then have "\<exists>q \<in> set ws.
               snd ((\<lambda>(e, st). if e = k \<and> st = Pending then (e, v) else (e, st)) q) = Rejected"
    by (intro bexI [of _ p]) (auto split: prod.splits)
  then have "list_ex (\<lambda>p. snd p = Rejected)
               (map (\<lambda>(e, st). if e = k \<and> st = Pending then (e, v) else (e, st)) ws)"
    by (simp add: list_ex_iff)
  with True show ?thesis by (simp add: Promise_all_def)
next
  case False
  with assms have "list_all (\<lambda>p. snd p = Fulfilled) ws"
    by (simp add: Promise_all_def split: if_splits)
  then have "map (\<lambda>(e, st). if e = k \<and> st = Pending then (e, v) else (e, st)) ws = ws"
    by (induction ws) (auto split: prod.splits)
  then show ?thesis by simp
qed

lemma settle_keeps_all:
  assumes "outcome b = Promise_all (waits b)"
  shows "outcome (settle l k b) = Promise_all (waits (settle l k b))"
proof (cases "outcome b = Pending")
  case True
  then show ?thesis by (simp add: settle_def Let_def)
next
  case False
  with assms have "Promise_all (waits b) \<noteq> Pending" by simp
  from Promise_all_step [OF this, of k "if l then Fulfilled else Rejected"] False assms
  show ?thesis by (simp add: settle_def Let_def)
qed

lemma count_newly_fulfilled:
  "length (filter (\<lambda>b. outcome b = Fulfilled) (map (settle l k) bs)) =
   length (filter (\<lambda>b. outcome b = Fulfilled) bs) +
   length (filter (\<lambda>(b, b'). outcome b = Pending \<and> outcome b' = Fulfilled)
             (zip bs (map (settle l k) bs)))"
proof (induction bs)
  case Nil
  then show ?case by simp
next
  case (Cons b bs)
  show ?case
  proof (cases "outcome b = Pending")
    case True
    with Cons show ?thesis by simp
  next
    case False
    with Cons outcome_settle_settled [OF False, of l k] show ?thesis by simp
  qed
qed

lemma onImagesLoaded_all: "outcome (onImagesLoaded images) = Promise_all (waits (onImagesLoaded images))"
  by (simp add: onImagesLoaded_def Let_def)

lemma good_initial: "good (widget_with_ids xs)"
  by (simp add: good_def widget_with_ids_def fired_def)

lemma good_onPlayerReady:
  assumes "good w"
  shows "good (onPlayerReady images w)"
proof (cases "Suc (numberPlayersReady w) = length (ids w)")
  case True
  with assms have empty: "barriers w = []" by (auto simp: good_def)
  with assms have f0: "fired w = 0" by (simp add: good_def)
  then have "count_list (emitted w) PLAYERS_READY = 0" by (simp add: fired_def)
  with True empty show ?thesis
    using onImagesLoaded_all [of images]
    by (auto simp: good_def onPlayerReady_def Let_def onPlayersReady_def fired_def)
next
  case False
  with assms show ?thesis
    by (auto simp: good_def onPlayerReady_def Let_def fired_def)
qed

lemma fired_barriers_update [simp]: "fired (w\<lparr>barriers := bs\<rparr>) = fired w"
  by (simp add: fired_def)

lemma good_image_event:
  assumes "good w"
  shows "good (image_event l k w)"
  using assms count_newly_fulfilled [of l k "barriers w"]
  by (auto simp: good_def image_event_def Let_def settle_keeps_all)

lemma good_deliver: "good w \<Longrightarrow> good (deliver s w)"
  by (cases s) (simp_all add: good_onPlayerReady good_image_event)

lemma good_run: "good w \<Longrightarrow> good (run ss w)"
  by (induction ss arbitrary: w) (simp_all add: good_deliver)

lemma good_fired_le:
  assumes "good w"
  shows "fired w \<le> 1"
proof -
  from assms have "length (barriers w) \<le> 1"
    and "fired w = length (filter (\<lambda>b. outcome b = Fulfilled) (barriers w))"
    by (simp_all add: good_def)
  with length_filter_le [of "\<lambda>b. outcome b = Fulfilled" "barriers w"]
  show ?thesis by linarith
qed

lemma fired_onPlayerReady_mono: "fired w \<le> fired (onPlayerReady images w)"
  by (simp add: onPlayerReady_def Let_def onPlayersReady_def fired_def)

lemma fired_image_event_mono: "fired w \<le> fired (image_event l k w)"
  by (simp add: image_event_def Let_def)

lemma fired_deliver_mono: "fired w \<le> fired (deliver s w)"
  by (cases s) (simp_all add: fired_onPlayerReady_mono fired_image_event_mono)

lemma fired_run_mono: "fired w \<le> fired (run ss w)"
proof (induction ss arbitrary: w)
  case Nil
  then show ?case by simp
next
  case (Cons s ss)
  have "fired w \<le> fired (deliver s w)" by (rule fired_deliver_mono)
  also have "\<dots> \<le> fired (run ss (deliver s w))" by (rule Cons.IH)
  finally show ?case by simp
qed

lemma ids_deliver [simp]: "ids (deliver s w) = ids w"
  by (cases s) (auto simp: onPlayerReady_def image_event_def Let_def onPlayersReady_def)

lemma ids_run [simp]: "ids (run ss w) = ids w"
  by (induction ss arbitrary: w) auto

lemma number_deliver:
  "numberPlayersReady (deliver s w) = numberPlayersReady w + ready_count [s]"
  by (cases s) (auto simp: onPlayerReady_def image_event_def Let_def onPlayersReady_def)

lemma ready_count_Cons: "ready_count (s # ss) = ready_count [s] + ready_count ss"
  by (cases s) auto

lemma number_run:
  "numberPlayersReady (run ss w) = numberPlayersReady w + ready_count ss"
proof (induction ss arbitrary: w)
  case Nil
  then show ?case by simp
next
  case (Cons s ss)
  then show ?case
    using number_deliver [of s w] ready_count_Cons [of s ss] by simp
qed


lemma waits_after_Cons:
  "waits_after (s # ss) ws =
     waits_after ss
       (case s of
          PlayerReady images \<Rightarrow> ws
        | ImgLoad k \<Rightarrow> map (\<lambda>(e, st). if e = k \<and> st = Pending then (e, Fulfilled) else (e, st)) ws
        | ImgError k \<Rightarrow> map (\<lambda>(e, st). if e = k \<and> st = Pending then (e, Rejected) else (e, st)) ws)"
  by (cases s) (auto simp: waits_after_def)

lemma waits_after_Nil [simp]: "waits_after [] ws = ws"
  by (induction ws) (auto simp: waits_after_def)

lemma single_barrier_run:
  assumes "barriers w = [b]" and "length (ids w) \<le> numberPlayersReady w"
  shows "map waits (barriers (run post w)) = [waits_after post (waits b)]"
  using assms
proof (induction post arbitrary: w b)
  case Nil
  then show ?case by simp
next
  case (Cons s post)
  show ?case
  proof (cases s)
    case (PlayerReady images)
    with Cons.prems have "barriers (deliver s w) = [b]"
      and "length (ids (deliver s w)) \<le> numberPlayersReady (deliver s w)"
      by (simp_all add: onPlayerReady_def Let_def)
    from Cons.IH [OF this] PlayerReady show ?thesis
      by (simp add: waits_after_Cons)
  next
    case (ImgLoad k)
    with Cons.prems have "barriers (deliver s w) = [settle True k b]"
      and "length (ids (deliver s w)) \<le> numberPlayersReady (deliver s w)"
      by (simp_all add: image_event_def Let_def)
    from Cons.IH [OF this] ImgLoad show ?thesis
      by (simp add: waits_after_Cons settle_def Let_def)
  next
    case (ImgError k)
    with Cons.prems have "barriers (deliver s w) = [settle False k b]"
      and "length (ids (deliver s w)) \<le> numberPlayersReady (deliver s w)"
      by (simp_all add: image_event_def Let_def)
    from Cons.IH [OF this] ImgError show ?thesis
      by (simp add: waits_after_Cons settle_def Let_def)
  qed
qed

lemma fired_single_barrier:
  assumes "good w" and "barriers w = [b]"
  shows "fired (run post w) =
           (if Promise_all (waits_after post (waits b)) = Fulfilled then 1 else 0)"
proof -
  from assms have "length (ids w) \<le> numberPlayersReady w" by (simp add: good_def)
  from single_barrier_run [OF assms(2) this, of post]
  obtain b' where b': "barriers (run post w) = [b']" "waits b' = waits_after post (waits b)"
    by auto
  have "good (run post w)" using assms(1) by (rule good_run)
  with b' show ?thesis by (simp add: good_def)
qed

lemma Promise_all_Fulfilled_iff:
  "Promise_all ws = Fulfilled \<longleftrightarrow> (\<forall>p \<in> set ws. snd p = Fulfilled)"
  by (auto simp: Promise_all_def list_ex_iff list_all_iff)

lemma all_loaded_iff:
  "Promise_all (waits_after post (waits (onImagesLoaded images))) = Fulfilled \<longleftrightarrow>
     (\<forall>i \<in> set images. must_wait i \<longrightarrow> first_settle (elem i) post = Fulfilled)"
proof -
  have "waits (onImagesLoaded images) = map (\<lambda>i. (elem i, Pending)) (filter must_wait images)"
    by (simp add: onImagesLoaded_def Let_def)
  then show ?thesis
    by (auto simp: Promise_all_Fulfilled_iff waits_after_def)
qed

lemma fired_before_all_ready:
  assumes "ready_count evs < length xs \<or> xs = []"
  shows "barriers (run evs (widget_with_ids xs)) = []"
    and "fired (run evs (widget_with_ids xs)) = 0"
proof -
  let ?w = "run evs (widget_with_ids xs)"
  have g: "good ?w" by (simp add: good_run good_initial)
  have "numberPlayersReady ?w = ready_count evs"
    by (simp add: number_run widget_with_ids_def)
  moreover have "ids ?w = xs" by (simp add: widget_with_ids_def)
  ultimately show "barriers ?w = []" using g assms by (auto simp: good_def)
  with g show "fired ?w = 0" by (simp add: good_def)
qed

lemma fired_after_last_ready:
  assumes "ready_count pre + 1 = length xs"
  shows "fired (run (pre @ PlayerReady images # post) (widget_with_ids xs)) =
           (if \<forall>i \<in> set images. must_wait i \<longrightarrow> first_settle (elem i) post = Fulfilled
            then 1 else 0)"
proof -
  let ?w1 = "run pre (widget_with_ids xs)"
  let ?w2 = "onPlayerReady images ?w1"
  from assms have "ready_count pre < length xs \<or> xs = []" by simp
  then have empty: "barriers ?w1 = []" by (rule fired_before_all_ready)
  have n: "numberPlayersReady ?w1 = ready_count pre"
    by (simp add: number_run widget_with_ids_def)
  have i: "ids ?w1 = xs" by (simp add: widget_with_ids_def)
  have g: "good ?w2" by (simp add: good_run good_initial good_onPlayerReady)
  from empty n i assms have b: "barriers ?w2 = [onImagesLoaded images]"
    by (simp add: onPlayerReady_def Let_def onPlayersReady_def)
  have "run (pre @ PlayerReady images # post) (widget_with_ids xs) = run post ?w2"
    by (simp add: run_append)
  with fired_single_barrier [OF g b, of post] show ?thesis
    by (simp add: all_loaded_iff)
qed

lemma first_settle_Fulfilled_mem: "first_settle k ss = Fulfilled \<Longrightarrow> ImgLoad k \<in> set ss"
  by (induction ss) (auto split: if_splits)

lemma first_settle_loads:
  "k \<in> set ks \<Longrightarrow> first_settle k (map ImgLoad ks) = Fulfilled"
  by (induction ks) auto

lemma first_settle_append:
  "first_settle k ss \<noteq> Pending \<Longrightarrow> first_settle k (ss @ ts) = first_settle k ss"
  by (induction ss) auto

text \<open>
  Claim C1, as the code has it. Once the last of the N child-ready signals has arrived,
  the barrier waits for every image of the document that is incomplete or has no natural
  width. The completion notification fires (once) exactly when, for each of these images,
  the first \<open>load\<close> or \<open>error\<close> event that follows is a \<open>load\<close>. An \<open>error\<close> event rejects
  the image's promise and with it the barrier: the notification then never fires,
  whatever follows.
\<close>

theorem barrier_completes_iff_images_load:
  assumes "ready_count pre + 1 = length (parse_ids opts)"
  shows "fired (run (pre @ PlayerReady images # post) (VideoLibrary_initialize opts)) =
           (if \<forall>i \<in> set images. must_wait i \<longrightarrow> first_settle (elem i) post = Fulfilled
            then 1 else 0)"
  unfolding VideoLibrary_initialize_def using assms by (rule fired_after_last_ready)

text \<open>
  One id, one incomplete image, which then loads: the notification fires.
\<close>

theorem barrier_completes_iff_images_load_witness:
  "ready_count [] + 1 = length (parse_ids video_defaults) \<and>
   fired (run ([] @ PlayerReady [\<lparr>elem = 0, naturalWidth = 0, complete = False\<rparr>]
                 # [ImgLoad 0]) (VideoLibrary_initialize video_defaults)) = 1"
proof -
  have h: "ready_count [] + 1 = length (parse_ids video_defaults)"
    by (simp add: parse_ids_def video_defaults_def)
  from barrier_completes_iff_images_load [OF h,
      of "[\<lparr>elem = 0, naturalWidth = 0, complete = False\<rparr>]" "[ImgLoad 0]"] h
  show ?thesis by (simp add: must_wait_def)
qed

text \<open>
  Claim C1 as stated fails: with one id and one incomplete image that ends with an
  \<open>error\<close> event, no completion notification is triggered and the widget stays hidden.
\<close>

theorem image_error_blocks_completion:
  "fired (run [PlayerReady [\<lparr>elem = 0, naturalWidth = 0, complete = False\<rparr>], ImgError 0]
            (VideoLibrary_initialize video_defaults)) = 0
   \<and> hidden (run [PlayerReady [\<lparr>elem = 0, naturalWidth = 0, complete = False\<rparr>], ImgError 0]
            (VideoLibrary_initialize video_defaults))"
  by (simp add: VideoLibrary_initialize_def parse_ids_def video_defaults_def trim_def
      widget_with_ids_def onPlayerReady_def onImagesLoaded_def must_wait_def Promise_all_def
      image_event_def settle_def fired_def Let_def)

text \<open>
  Claim C2, as the code has it. The number N of ids is at least 1 for every value of the
  \<open>ids\<close> option, so the case N = 0 does not arise. The completion notification fires at
  most once; it does not fire before N child-ready signals; when the Nth signal is
  followed by a \<open>load\<close> event of every image that had to be waited for, it has fired
  exactly once; and if it has fired, each of these images has had its \<open>load\<close> event after
  the Nth signal.
\<close>

theorem completion_at_most_once_after_all_ready:
  "0 < length (parse_ids opts)
   \<and> fired (run evs (VideoLibrary_initialize opts)) \<le> 1
   \<and> (ready_count evs < length (parse_ids opts) \<longrightarrow>
        fired (run evs (VideoLibrary_initialize opts)) = 0)
   \<and> (ready_count pre + 1 = length (parse_ids opts) \<longrightarrow>
        fired (run (pre @ PlayerReady images
                      # map ImgLoad (map elem (filter must_wait images)))
                 (VideoLibrary_initialize opts)) = 1)
   \<and> (ready_count pre + 1 = length (parse_ids opts) \<and>
        fired (run (pre @ PlayerReady images # post) (VideoLibrary_initialize opts)) = 1 \<longrightarrow>
        (\<forall>i \<in> set images. must_wait i \<longrightarrow> ImgLoad (elem i) \<in> set post))"
proof (intro conjI impI)
  show "0 < length (parse_ids opts)"
    using split_comma_nonempty [of "opt_ids opts"] by (simp add: parse_ids_def)
next
  show "fired (run evs (VideoLibrary_initialize opts)) \<le> 1"
    unfolding VideoLibrary_initialize_def
    by (rule good_fired_le) (simp add: good_run good_initial)
next
  assume "ready_count evs < length (parse_ids opts)"
  then have "ready_count evs < length (parse_ids opts) \<or> parse_ids opts = []" by simp
  then show "fired (run evs (VideoLibrary_initialize opts)) = 0"
    unfolding VideoLibrary_initialize_def by (rule fired_before_all_ready)
next
  assume h: "ready_count pre + 1 = length (parse_ids opts)"
  have "\<forall>i \<in> set images. must_wait i \<longrightarrow>
          first_settle (elem i) (map ImgLoad (map elem (filter must_wait images))) = Fulfilled"
  proof (intro ballI impI)
    fix i
    assume "i \<in> set images" and "must_wait i"
    then have "elem i \<in> set (map elem (filter must_wait images))" by simp
    then show "first_settle (elem i) (map ImgLoad (map elem (filter must_wait images))) = Fulfilled"
      by (rule first_settle_loads)
  qed
  with fired_after_last_ready [OF h, of images
      "map ImgLoad (map elem (filter must_wait images))"]
  show "fired (run (pre @ PlayerReady images
                      # map ImgLoad (map elem (filter must_wait images)))
                 (VideoLibrary_initialize opts)) = 1"
    by (simp add: VideoLibrary_initialize_def)
next
  assume h: "ready_count pre + 1 = length (parse_ids opts) \<and>
        fired (run (pre @ PlayerReady images # post) (VideoLibrary_initialize opts)) = 1"
  then have "\<forall>i \<in> set images. must_wait i \<longrightarrow> first_settle (elem i) post = Fulfilled"
    using fired_after_last_ready [of pre "parse_ids opts" images post]
    by (simp add: VideoLibrary_initialize_def split: if_splits)
  then show "\<forall>i \<in> set images. must_wait i \<longrightarrow> ImgLoad (elem i) \<in> set post"
    by (auto dest: first_settle_Fulfilled_mem)
qed

text \<open>
  The option \<open>'a,b'\<close> gives two ids: nothing fires on an image event alone; after the
  second child-ready signal and the load of the one image that had to be waited for, the
  notification has fired.
\<close>

theorem completion_at_most_once_after_all_ready_witness:
  "parse_ids (video_defaults\<lparr>opt_ids := ''a,b''\<rparr>) = [''a'', ''b''] \<and>
   ready_count [ImgLoad 3] < length (parse_ids (video_defaults\<lparr>opt_ids := ''a,b''\<rparr>)) \<and>
   fired (run [ImgLoad 3] (VideoLibrary_initialize (video_defaults\<lparr>opt_ids := ''a,b''\<rparr>))) = 0 \<and>
   ready_count [PlayerReady []] + 1 = length (parse_ids (video_defaults\<lparr>opt_ids := ''a,b''\<rparr>)) \<and>
   fired (run ([PlayerReady []] @ PlayerReady [\<lparr>elem = 3, naturalWidth = 0, complete = True\<rparr>]
                 # [ImgLoad 3])
            (VideoLibrary_initialize (video_defaults\<lparr>opt_ids := ''a,b''\<rparr>))) = 1 \<and>
   ImgLoad 3 \<in> set [ImgLoad 3]"
proof -
  have p: "parse_ids (video_defaults\<lparr>opt_ids := ''a,b''\<rparr>) = [''a'', ''b'']"
    by (simp add: parse_ids_def video_defaults_def trim_def is_ws_def)
  have h1: "ready_count [ImgLoad 3] < length (parse_ids (video_defaults\<lparr>opt_ids := ''a,b''\<rparr>))"
    by (simp add: p)
  have h2: "ready_count [PlayerReady []] + 1
              = length (parse_ids (video_defaults\<lparr>opt_ids := ''a,b''\<rparr>))"
    by (simp add: p)
  from completion_at_most_once_after_all_ready
         [of "video_defaults\<lparr>opt_ids := ''a,b''\<rparr>" "[ImgLoad 3]" "[PlayerReady []]"
             "[\<lparr>elem = 3, naturalWidth = 0, complete = True\<rparr>]" "[ImgLoad 3]"] p h1 h2
  show ?thesis by (simp add: must_wait_def)
qed

text \<open>
  Claim C2 as stated fails on widgets that \<open>initialize\<close> produces. With the empty \<open>ids\<close>
  option (no embed configured) there is one id, the empty string, and one player, and
  nothing fires until that player signals. With one id, the child-ready signal arrives
  while the only image of the document is already broken (complete, no natural width):
  all N signals are in and every image is settled, but the barrier waits for an event
  that never comes. With two ids, both signals arrive and the one pending image settles
  with an \<open>error\<close> event: the notification does not fire either.
\<close>

theorem no_completion_after_signals_and_settled_images:
  "ids (VideoLibrary_initialize video_defaults) = ['''']
   \<and> players (createPlayers (VideoLibrary_initialize video_defaults)) = ['''']
   \<and> fired (run [] (createPlayers (VideoLibrary_initialize video_defaults))) = 0
   \<and> fired (run [PlayerReady [\<lparr>elem = 0, naturalWidth = 0, complete = True\<rparr>]]
              (VideoLibrary_initialize video_defaults)) = 0
   \<and> fired (run [PlayerReady [],
                   PlayerReady [\<lparr>elem = 0, naturalWidth = 0, complete = False\<rparr>],
                   ImgError 0]
              (VideoLibrary_initialize (video_defaults\<lparr>opt_ids := ''a,b''\<rparr>))) = 0"
  by (simp add: VideoLibrary_initialize_def parse_ids_def video_defaults_def trim_def is_ws_def
      createPlayers_def widget_with_ids_def onPlayerReady_def onImagesLoaded_def must_wait_def
      Promise_all_def image_event_def settle_def fired_def Let_def)

text \<open>
  Claim C3. The completion notification is triggered at most once over any sequence of
  signals, and a child-ready signal that arrives when N or more have been delivered
  triggers the notification of that one player and nothing else. (The counter is a
  natural number here; the JavaScript number is exact far beyond any array length.)
\<close>

theorem extra_ready_signals_do_not_refire:
  "fired (run evs (VideoLibrary_initialize opts)) \<le> 1
   \<and> (length (parse_ids opts) \<le> ready_count evs \<longrightarrow>
        emitted (run (evs @ [PlayerReady images]) (VideoLibrary_initialize opts)) =
        emitted (run evs (VideoLibrary_initialize opts)) @ [PLAYER_READY])"
proof (intro conjI impI)
  show "fired (run evs (VideoLibrary_initialize opts)) \<le> 1"
    unfolding VideoLibrary_initialize_def
    by (rule good_fired_le) (simp add: good_run good_initial)
next
  let ?w = "run evs (VideoLibrary_initialize opts)"
  assume "length (parse_ids opts) \<le> ready_count evs"
  moreover have "numberPlayersReady ?w = ready_count evs"
    by (simp add: number_run VideoLibrary_initialize_def widget_with_ids_def)
  moreover have "ids ?w = parse_ids opts"
    by (simp add: VideoLibrary_initialize_def widget_with_ids_def)
  ultimately have "Suc (numberPlayersReady ?w) \<noteq> length (ids ?w)" by simp
  then show "emitted (run (evs @ [PlayerReady images]) (VideoLibrary_initialize opts)) =
        emitted ?w @ [PLAYER_READY]"
    by (simp add: run_append onPlayerReady_def Let_def)
qed

text \<open>
  The default \<open>ids\<close> option gives one id; a second child-ready signal adds one
  \<open>PLAYER_READY\<close> and no second \<open>PLAYERS_READY\<close>.
\<close>

theorem extra_ready_signals_do_not_refire_witness:
  "length (parse_ids video_defaults) \<le> ready_count [PlayerReady []] \<and>
   emitted (run ([PlayerReady []] @ [PlayerReady []]) (VideoLibrary_initialize video_defaults)) =
     [RENDER, PLAYER_READY, PLAYERS_READY, PLAYER_READY]"
proof -
  have h: "length (parse_ids video_defaults) \<le> ready_count [PlayerReady []]"
    by (simp add: parse_ids_def video_defaults_def)
  have "emitted (run [PlayerReady []] (VideoLibrary_initialize video_defaults)) =
          [RENDER, PLAYER_READY, PLAYERS_READY]"
    by (simp add: VideoLibrary_initialize_def parse_ids_def video_defaults_def trim_def
        widget_with_ids_def onPlayerReady_def onImagesLoaded_def must_wait_def Promise_all_def
        onPlayersReady_def Let_def)
  with extra_ready_signals_do_not_refire [of "[PlayerReady []]" video_defaults "[]"] h
  show ?thesis by simp
qed

section \<open>Properties of the article navigation widget\<close>

lemma mset_insert_by: "mset (insert_by cmp x ys) = add_mset x (mset ys)"
  by (induction ys) auto

lemma mset_insertion: "mset (foldr (insert_by cmp) xs []) = mset xs"
  by (induction xs) (simp_all add: mset_insert_by)

lemma mset_Array_sort: "mset (Array_sort c xs) = mset xs"
  by (cases c) (simp_all add: mset_insertion)

lemma mset_sortObjects: "mset (sortObjects this xs ty) = mset xs"
  by (simp add: sortObjects_def mset_Array_sort mset_insertion
      split: setting.splits option.splits)

lemma set_sortObjects [simp]: "set (sortObjects this xs ty) = set xs"
  using mset_sortObjects [of this xs ty] by (metis set_mset_mset)

lemma length_sortObjects [simp]: "length (sortObjects this xs ty) = length xs"
  using mset_sortObjects [of this xs ty] by (metis size_mset)

lemma set_sortObjects_pow [simp]:
  "set (((\<lambda>xs. sortObjects this xs ty) ^^ n) xs) = set xs"
  by (induction n) auto

lemma set_filter_from: "set (filter_from f arr i xs) \<subseteq> set xs"
  by (induction xs arbitrary: i) auto

lemma filter_from_elementwise:
  assumes "\<And>x i. as_predicate f x i arr = p x"
  shows "filter_from f arr i xs = filter p xs"
  by (induction xs arbitrary: i) (simp_all add: assms)

lemma set_filterObjects: "set (snd (filterObjects this xs ty)) \<subseteq> set xs"
  using set_filter_from [of _ xs 0 xs]
  by (auto simp: filterObjects_def Array_filter_def split: setting.splits option.splits)

lemma default_filter_excludes_drafts:
  assumes "filter_opt (options this) ty = Function not_draft"
    and "\<not> is_null (sort_opt (options this) ty)"
  shows "filterObjects this xs ty = (True, filter (\<lambda>x. \<not> draft x) xs)"
proof -
  have "filter_from not_draft xs 0 xs = filter (\<lambda>x. \<not> draft x) xs"
    by (rule filter_from_elementwise) (simp add: not_draft_def)
  with assms show ?thesis
    by (simp add: filterObjects_def Array_filter_def)
qed

lemma absent_filter_keeps_all:
  "filter_opt (options this) ty = Absent \<Longrightarrow> filterObjects this xs ty = (False, xs)"
  by (simp add: filterObjects_def)

lemma filterObjects_same:
  "\<not> fst (filterObjects this xs ty) \<Longrightarrow> snd (filterObjects this xs ty) = xs"
  by (auto simp: filterObjects_def split: setting.splits option.splits if_splits)

lemma take_section_upto:
  "i \<le> length pool \<Longrightarrow>
   take_section sid i (pool, acc) =
     (filter (\<lambda>a. section_id a \<noteq> sid) (take i pool) @ drop i pool,
      acc @ rev (filter (\<lambda>a. section_id a = sid) (take i pool)))"
proof (induction i arbitrary: pool acc)
  case 0
  then show ?case by simp
next
  case (Suc i)
  then have lt: "i < length pool" by simp
  then have tk: "take (Suc i) pool = take i pool @ [pool ! i]"
    by (simp add: take_Suc_conv_app_nth)
  from lt have dr: "drop i pool = pool ! i # drop (Suc i) pool"
    by (simp add: Cons_nth_drop_Suc)
  show ?case
  proof (cases "section_id (pool ! i) = sid")
    case True
    from lt have len: "i \<le> length (splice1 i pool)" by (simp add: splice1_def)
    from lt have "take i (splice1 i pool) = take i pool"
      and "drop i (splice1 i pool) = drop (Suc i) pool"
      by (simp_all add: splice1_def)
    with Suc.IH [OF len, of "acc @ [pool ! i]"] True tk show ?thesis
      by (simp add: Let_def)
  next
    case False
    from lt have "i \<le> length pool" by simp
    from Suc.IH [OF this, of acc] False tk dr show ?thesis
      by (simp add: Let_def)
  qed
qed

lemma each_section_eq:
  "each_section c s (pool, acc) =
     (if category_id s = oid c
      then (filter (\<lambda>a. section_id a \<noteq> oid s) pool,
            acc @ rev (filter (\<lambda>a. section_id a = oid s) pool))
      else (pool, acc))"
  by (simp add: each_section_def take_section_upto)

lemma fold_each_section_pool:
  "fst (fold (each_section c) ss (pool, acc)) =
     filter (\<lambda>a. \<not> (\<exists>s \<in> set ss. category_id s = oid c \<and> section_id a = oid s)) pool"
proof (induction ss arbitrary: pool acc)
  case Nil
  then show ?case by simp
next
  case (Cons s ss)
  show ?case
    by (auto simp: each_section_eq Cons.IH intro: filter_cong)
qed

lemma fold_each_section_acc:
  "set (snd (fold (each_section c) ss (pool, acc))) =
     set acc \<union>
     {a \<in> set pool. \<exists>s \<in> set ss. category_id s = oid c \<and> section_id a = oid s}"
proof (induction ss arbitrary: pool acc)
  case Nil
  then show ?case by simp
next
  case (Cons s ss)
  show ?case
    by (auto simp: each_section_eq Cons.IH)
qed

lemma each_category_eq:
  "each_category this c (ss, pool, acc) =
     (sortObjects this ss Sections,
      fold (each_section c) (sortObjects this ss Sections) (pool, acc))"
  by (simp add: each_category_def Let_def)

lemma fold_each_category_sections:
  "fst (fold (each_category this) cs (ss, pool, acc)) =
     ((\<lambda>xs. sortObjects this xs Sections) ^^ length cs) ss"
proof (induction cs arbitrary: ss pool acc)
  case Nil
  then show ?case by simp
next
  case (Cons c cs)
  obtain pool' acc' where
    "fold (each_section c) (sortObjects this ss Sections) (pool, acc) = (pool', acc')"
    by (cases "fold (each_section c) (sortObjects this ss Sections) (pool, acc)")
  then show ?case
    using funpow_swap1 [of "\<lambda>xs. sortObjects this xs Sections" "length cs" ss]
    by (simp add: each_category_eq Cons.IH)
qed

lemma fold_each_category_pool:
  "fst (snd (fold (each_category this) cs (ss, pool, acc))) =
     filter (\<lambda>a. \<not> (\<exists>c \<in> set cs. \<exists>s \<in> set ss. category_id s = oid c \<and> section_id a = oid s)) pool"
proof (induction cs arbitrary: ss pool acc)
  case Nil
  then show ?case by simp
next
  case (Cons c cs)
  let ?ss = "sortObjects this ss Sections"
  obtain pool' acc' where st: "fold (each_section c) ?ss (pool, acc) = (pool', acc')"
    by (cases "fold (each_section c) ?ss (pool, acc)")
  with fold_each_section_pool [of c ?ss pool acc]
  have "pool' = filter (\<lambda>a. \<not> (\<exists>s \<in> set ss. category_id s = oid c \<and> section_id a = oid s)) pool"
    by simp
  with st show ?case
    by (auto simp: each_category_eq Cons.IH intro: filter_cong)
qed

lemma fold_each_category_acc:
  "set (snd (snd (fold (each_category this) cs (ss, pool, acc)))) =
     set acc \<union>
     {a \<in> set pool. \<exists>c \<in> set cs. \<exists>s \<in> set ss. category_id s = oid c \<and> section_id a = oid s}"
proof (induction cs arbitrary: ss pool acc)
  case Nil
  then show ?case by simp
next
  case (Cons c cs)
  let ?ss = "sortObjects this ss Sections"
  let ?P = "\<lambda>a. \<exists>s \<in> set ss. category_id s = oid c \<and> section_id a = oid s"
  obtain pool' acc' where st: "fold (each_section c) ?ss (pool, acc) = (pool', acc')"
    by (cases "fold (each_section c) ?ss (pool, acc)")
  with fold_each_section_pool [of c ?ss pool acc] fold_each_section_acc [of c ?ss pool acc]
  have p: "pool' = filter (\<lambda>a. \<not> ?P a) pool"
    and a: "set acc' = set acc \<union> {a \<in> set pool. ?P a}"
    by simp_all
  from st show ?case
    unfolding fold_simps each_category_eq st Cons.IH p a set_sortObjects
    by auto
qed

lemma sortArticles_unfold:
  "sortArticles this collection =
     (let fc = filterObjects this (categories collection) Categories;
          fs = filterObjects this (sections collection) Sections;
          fa = filterObjects this (articles collection) Articles;
          cs = sortObjects this (rev (snd fc)) Categories;
          st = fold (each_category this) cs
                 (rev (snd fs), sortObjects this (snd fa) Articles, [])
      in (if sortOrder (options this) = ''desc'' then snd (snd st) else rev (snd (snd st)),
          \<lparr>categories = (if fst fc then categories collection else cs),
           sections = (if fst fs then sections collection else fst st),
           articles = (if fst fa then articles collection else fst (snd st))\<rparr>))"
  by (simp add: sortArticles_def Let_def split: prod.splits)

lemma sortArticles_members:
  "set (fst (sortArticles this collection)) =
     {a \<in> set (snd (filterObjects this (articles collection) Articles)).
        \<exists>c \<in> set (snd (filterObjects this (categories collection) Categories)).
        \<exists>s \<in> set (snd (filterObjects this (sections collection) Sections)).
          category_id s = oid c \<and> section_id a = oid s}"
  by (simp add: sortArticles_unfold Let_def fold_each_category_acc)

text \<open>
  Claim C6. An article whose \<open>section_id\<close> is the id of no section that remains after
  filtering is not in the sorted list.
\<close>

theorem unmatched_articles_are_dropped:
  assumes "\<forall>s \<in> set (snd (filterObjects this (sections collection) Sections)).
             oid s \<noteq> section_id a"
  shows "a \<notin> set (fst (sortArticles this collection))"
  using assms by (auto simp: sortArticles_members)

text \<open>
  The article of section 99 is dropped from the example, whose sections are 10 and 11.
\<close>

theorem unmatched_articles_are_dropped_witness:
  "map oid (snd (filterObjects (plugin_with nav_defaults)
                   (sections (example_collection\<lparr>articles := [article_100, article_102]\<rparr>))
                   Sections)) = [10, 11]
   \<and> section_id article_102 = 99
   \<and> article_102 \<notin> set (fst (sortArticles (plugin_with nav_defaults)
                              (example_collection\<lparr>articles := [article_100, article_102]\<rparr>)))"
proof -
  have s: "map oid (snd (filterObjects (plugin_with nav_defaults)
                   (sections (example_collection\<lparr>articles := [article_100, article_102]\<rparr>))
                   Sections)) = [10, 11]"
    by (simp add: filterObjects_def plugin_with_def nav_defaults_def example_collection_def
        Array_filter_def not_draft_def section_10_def section_11_def)
  have a: "section_id article_102 = 99" by (simp add: article_102_def)
  have "\<forall>x \<in> set (map oid (snd (filterObjects (plugin_with nav_defaults)
                   (sections (example_collection\<lparr>articles := [article_100, article_102]\<rparr>))
                   Sections))). x \<noteq> section_id article_102"
    unfolding s a by simp
  then have h: "\<forall>s \<in> set (snd (filterObjects (plugin_with nav_defaults)
                      (sections (example_collection\<lparr>articles := [article_100, article_102]\<rparr>))
                      Sections)).
      oid s \<noteq> section_id article_102"
    by simp
  from unmatched_articles_are_dropped [OF h] s a show ?thesis by simp
qed


lemma index_loop_none:
  "(\<forall>j. i \<le> j \<and> j < length arts \<longrightarrow> \<not> strict_eq (oid (arts ! j)) aid) \<Longrightarrow>
   index_loop aid arts i = None"
proof (induction aid arts i rule: index_loop.induct)
  case (1 aid arts i)
  show ?case
  proof (cases "i < length arts")
    case True
    with "1.prems" have no: "\<not> strict_eq (oid (arts ! i)) aid" by simp
    from "1.prems" have "\<forall>j. Suc i \<le> j \<and> j < length arts \<longrightarrow> \<not> strict_eq (oid (arts ! j)) aid"
      by simp
    with "1.IH" [OF True no] have "index_loop aid arts (Suc i) = None" by simp
    with True no show ?thesis by (simp add: index_loop.simps [of aid arts i])
  next
    case False
    then show ?thesis by (simp add: index_loop.simps [of aid arts i])
  qed
qed

lemma index_loop_first:
  "i \<le> k \<Longrightarrow> k < length arts \<Longrightarrow> strict_eq (oid (arts ! k)) aid \<Longrightarrow>
   (\<forall>j. i \<le> j \<and> j < k \<longrightarrow> \<not> strict_eq (oid (arts ! j)) aid) \<Longrightarrow>
   index_loop aid arts i = Some k"
proof (induction aid arts i rule: index_loop.induct)
  case (1 aid arts i)
  show ?case
  proof (cases "i = k")
    case True
    with "1.prems" show ?thesis by (simp add: index_loop.simps [of aid arts k])
  next
    case False
    with "1.prems" have lt: "i < length arts" and no: "\<not> strict_eq (oid (arts ! i)) aid"
      by simp_all
    from False "1.prems" have "Suc i \<le> k"
      and "\<forall>j. Suc i \<le> j \<and> j < k \<longrightarrow> \<not> strict_eq (oid (arts ! j)) aid"
      by simp_all
    with "1.IH" [OF lt no] "1.prems" have "index_loop aid arts (Suc i) = Some k" by simp
    with lt no show ?thesis by (simp add: index_loop.simps [of aid arts i])
  qed
qed

text \<open>
  Claim C5. In \<open>render\<close>, if \<open>k\<close> is the first index of the sorted list whose article has
  the configured id, the current article is the element at \<open>k\<close>, the previous one the
  element at \<open>k - 1\<close> or \<open>null\<close> when \<open>k\<close> is 0, the next one the element at \<open>k + 1\<close> or
  \<open>null\<close> when \<open>k\<close> is the last index. If no article has the configured id, the current
  article is undefined and both neighbours are \<open>null\<close>.
\<close>

theorem render_current_and_neighbours:
  assumes "arts = fst (sortArticles this collection)"
    and "aid = articleId (options this)"
  shows "(k < length arts \<and> strict_eq (oid (arts ! k)) aid
            \<and> (\<forall>j<k. \<not> strict_eq (oid (arts ! j)) aid) \<longrightarrow>
          currentArticle (render this collection) = Value (arts ! k)
          \<and> previousArticle (render this collection) =
              (if k = 0 then JsNull else Value (arts ! (k - 1)))
          \<and> nextArticle (render this collection) =
              (if k + 1 < length arts then Value (arts ! (k + 1)) else JsNull))
       \<and> ((\<forall>a \<in> set arts. \<not> strict_eq (oid a) aid) \<longrightarrow>
          currentArticle (render this collection) = Undefined
          \<and> previousArticle (render this collection) = JsNull
          \<and> nextArticle (render this collection) = JsNull)"
proof (intro conjI impI)
  assume h: "k < length arts \<and> strict_eq (oid (arts ! k)) aid
            \<and> (\<forall>j<k. \<not> strict_eq (oid (arts ! j)) aid)"
  then have ix: "index_loop aid arts 0 = Some k"
    by (intro index_loop_first) simp_all
  from h have k: "k < length arts" by simp
  from ix k assms show "currentArticle (render this collection) = Value (arts ! k)"
    by (simp add: render_def Let_def element_def)
  from ix k assms show "previousArticle (render this collection) =
              (if k = 0 then JsNull else Value (arts ! (k - 1)))"
    by (auto simp: render_def Let_def element_def)
  from ix k assms show "nextArticle (render this collection) =
              (if k + 1 < length arts then Value (arts ! (k + 1)) else JsNull)"
    by (simp add: render_def Let_def element_def)
next
  assume "\<forall>a \<in> set arts. \<not> strict_eq (oid a) aid"
  then have ix: "index_loop aid arts 0 = None"
    by (intro index_loop_none) simp
  from ix assms show "currentArticle (render this collection) = Undefined"
    by (simp add: render_def Let_def)
  from ix assms show "previousArticle (render this collection) = JsNull"
    by (simp add: render_def Let_def)
  from ix assms show "nextArticle (render this collection) = JsNull"
    by (simp add: render_def Let_def)
qed

lemma example_sorted:
  "fst (sortArticles (plugin_with (nav_defaults\<lparr>articleId := aid\<rparr>)) example_collection) =
     [article_101, article_100]"
  by (simp add: sortArticles_def plugin_with_def nav_defaults_def example_collection_def
     filterObjects_def sortObjects_def Util_spec_def sortByPosition_def not_draft_def Array_filter_def
     each_category_def each_section_def splice1_def Let_def
     category_1_def section_10_def section_11_def article_100_def article_101_def)

text \<open>
  On the example, whose sorted list is article 101 followed by article 100: with the
  current id 101 the index is 0, and with no current id there is no match.
\<close>

theorem render_current_and_neighbours_witness:
  "currentArticle (render (plugin_with (nav_defaults\<lparr>articleId := JNumber 101\<rparr>))
      example_collection) = Value article_101
   \<and> previousArticle (render (plugin_with (nav_defaults\<lparr>articleId := JNumber 101\<rparr>))
      example_collection) = JsNull
   \<and> nextArticle (render (plugin_with (nav_defaults\<lparr>articleId := JNumber 101\<rparr>))
      example_collection) = Value article_100
   \<and> currentArticle (render (plugin_with (nav_defaults\<lparr>articleId := JNull\<rparr>))
      example_collection) = Undefined
   \<and> previousArticle (render (plugin_with (nav_defaults\<lparr>articleId := JNull\<rparr>))
      example_collection) = JsNull
   \<and> nextArticle (render (plugin_with (nav_defaults\<lparr>articleId := JNull\<rparr>))
      example_collection) = JsNull"
proof -
  let ?arts = "[article_101, article_100]"
  have a1: "?arts = fst (sortArticles (plugin_with (nav_defaults\<lparr>articleId := JNumber 101\<rparr>))
                       example_collection)"
    by (simp add: example_sorted)
  have i1: "JNumber 101 = articleId (options (plugin_with (nav_defaults\<lparr>articleId := JNumber 101\<rparr>)))"
    by (simp add: plugin_with_def)
  have h1: "0 < length ?arts \<and> strict_eq (oid (?arts ! 0)) (JNumber 101)
            \<and> (\<forall>j<0. \<not> strict_eq (oid (?arts ! j)) (JNumber 101))"
    by (simp add: strict_eq_def article_101_def)
  have a2: "?arts = fst (sortArticles (plugin_with (nav_defaults\<lparr>articleId := JNull\<rparr>))
                       example_collection)"
    by (simp add: example_sorted)
  have i2: "JNull = articleId (options (plugin_with (nav_defaults\<lparr>articleId := JNull\<rparr>)))"
    by (simp add: plugin_with_def)
  have h2: "\<forall>a \<in> set ?arts. \<not> strict_eq (oid a) JNull"
    by (simp add: strict_eq_def)
  from render_current_and_neighbours [OF a1 i1, of 0] h1
       render_current_and_neighbours [OF a2 i2, of 0] h2
  show ?thesis by simp
qed


lemma set_insert_by: "set (insert_by cmp x ys) = insert x (set ys)"
  by (induction ys) auto

lemma sorted_insert_by_position:
  "sorted (map position ys) \<Longrightarrow>
   sorted (map position (insert_by (\<lambda>a b. position a - position b) x ys))"
  by (induction ys) (auto simp: set_insert_by)

lemma sorted_insertion_position:
  "sorted (map position (foldr (insert_by (\<lambda>a b. position a - position b)) xs []))"
  by (induction xs) (simp_all add: sorted_insert_by_position)

text \<open>
  Claim C8. With the default options the comparator for articles is the one named
  \<open>'sortByPosition'\<close> in \<open>Util\<close>, whatever \<open>this.sortByPosition\<close> and \<open>this.sortByName\<close>
  are: the articles come out as a rearrangement of the input in ascending position.
\<close>

theorem default_articles_sorted_by_position:
  "sortObjects \<lparr>options = nav_defaults\<lparr>articleId := aid\<rparr>, Util = Util_spec,
                this_sortByPosition = p, this_sortByName = n\<rparr> objects Articles
     = Array_sort (Some sortByPosition) objects
   \<and> sorted (map position
        (sortObjects \<lparr>options = nav_defaults\<lparr>articleId := aid\<rparr>, Util = Util_spec,
                      this_sortByPosition = p, this_sortByName = n\<rparr> objects Articles))
   \<and> mset (sortObjects \<lparr>options = nav_defaults\<lparr>articleId := aid\<rparr>, Util = Util_spec,
                      this_sortByPosition = p, this_sortByName = n\<rparr> objects Articles)
       = mset objects"
proof -
  have eq: "sortObjects \<lparr>options = nav_defaults\<lparr>articleId := aid\<rparr>, Util = Util_spec,
                this_sortByPosition = p, this_sortByName = n\<rparr> objects Articles
     = Array_sort (Some sortByPosition) objects"
    by (simp add: sortObjects_def nav_defaults_def Util_spec_def)
  have "sorted (map position (Array_sort (Some sortByPosition) objects))"
    using sorted_insertion_position [of objects] by (simp add: sortByPosition_def)
  with eq show ?thesis by (simp add: mset_insertion)
qed

text \<open>
  Claim C10, as the code has it. With the default filters and sort settings the caller's
  three arrays are unchanged. An array that is not filtered is the caller's own: the
  categories array is left reversed and then sorted; the sections array is left reversed
  and then sorted once for each category; the articles array is left sorted, not
  reversed, and without the articles that went into the result.
\<close>

theorem caller_arrays_after_sortArticles:
  "(filter_opt (options this) = filter_opt nav_defaults
      \<and> sort_opt (options this) = sort_opt nav_defaults \<longrightarrow>
    snd (sortArticles this collection) = collection)
   \<and> (\<not> fst (filterObjects this (categories collection) Categories) \<longrightarrow>
      categories (snd (sortArticles this collection)) =
        sortObjects this (rev (categories collection)) Categories)
   \<and> (\<not> fst (filterObjects this (sections collection) Sections) \<longrightarrow>
      sections (snd (sortArticles this collection)) =
        ((\<lambda>xs. sortObjects this xs Sections)
           ^^ length (snd (filterObjects this (categories collection) Categories)))
          (rev (sections collection)))
   \<and> (\<not> fst (filterObjects this (articles collection) Articles) \<longrightarrow>
      articles (snd (sortArticles this collection)) =
        filter (\<lambda>a. a \<notin> set (fst (sortArticles this collection)))
          (sortObjects this (articles collection) Articles))"
proof (intro conjI impI)
  assume "filter_opt (options this) = filter_opt nav_defaults
      \<and> sort_opt (options this) = sort_opt nav_defaults"
  then have "fst (filterObjects this xs ty)" for xs ty
    by (simp add: filterObjects_def nav_defaults_def)
  then show "snd (sortArticles this collection) = collection"
    by (simp add: sortArticles_unfold Let_def)
next
  assume same: "\<not> fst (filterObjects this (categories collection) Categories)"
  then show "categories (snd (sortArticles this collection)) =
        sortObjects this (rev (categories collection)) Categories"
    by (simp add: sortArticles_unfold Let_def filterObjects_same)
next
  assume same: "\<not> fst (filterObjects this (sections collection) Sections)"
  then show "sections (snd (sortArticles this collection)) =
        ((\<lambda>xs. sortObjects this xs Sections)
           ^^ length (snd (filterObjects this (categories collection) Categories)))
          (rev (sections collection))"
    by (simp add: sortArticles_unfold Let_def filterObjects_same fold_each_category_sections)
next
  assume same: "\<not> fst (filterObjects this (articles collection) Articles)"
  then have fa: "snd (filterObjects this (articles collection) Articles) = articles collection"
    by (rule filterObjects_same)
  have "articles (snd (sortArticles this collection)) =
          filter (\<lambda>a. \<not> (\<exists>c \<in> set (snd (filterObjects this (categories collection) Categories)).
                         \<exists>s \<in> set (snd (filterObjects this (sections collection) Sections)).
                           category_id s = oid c \<and> section_id a = oid s))
            (sortObjects this (articles collection) Articles)"
    using same by (simp add: sortArticles_unfold Let_def fa fold_each_category_pool)
  also have "\<dots> = filter (\<lambda>a. a \<notin> set (fst (sortArticles this collection)))
          (sortObjects this (articles collection) Articles)"
    by (rule filter_cong) (auto simp: sortArticles_members fa)
  finally show "articles (snd (sortArticles this collection)) =
        filter (\<lambda>a. a \<notin> set (fst (sortArticles this collection)))
          (sortObjects this (articles collection) Articles)" .
qed

lemma unfiltered_example:
  "sortArticles (plugin_with unfiltered) example_collection =
     ([article_101, article_100],
      \<lparr>categories = [category_1], sections = [section_10, section_11], articles = []\<rparr>)"
  by (simp add: sortArticles_def plugin_with_def unfiltered_def nav_defaults_def
     example_collection_def filterObjects_def sortObjects_def Util_spec_def sortByPosition_def
     each_category_def each_section_def splice1_def Let_def
     category_1_def section_10_def section_11_def article_100_def article_101_def)

text \<open>
  On the example: unchanged with the default options; without filters the categories and
  sections are left reversed and sorted, and the articles array is left empty.
\<close>

theorem caller_arrays_after_sortArticles_witness:
  "snd (sortArticles (plugin_with nav_defaults) example_collection) = example_collection
   \<and> categories (snd (sortArticles (plugin_with unfiltered) example_collection)) =
       sortObjects (plugin_with unfiltered) (rev (categories example_collection)) Categories
   \<and> sections (snd (sortArticles (plugin_with unfiltered) example_collection)) =
       sortObjects (plugin_with unfiltered) (rev (sections example_collection)) Sections
   \<and> articles (snd (sortArticles (plugin_with unfiltered) example_collection)) = []"
proof -
  have d: "filter_opt (options (plugin_with nav_defaults)) = filter_opt nav_defaults
      \<and> sort_opt (options (plugin_with nav_defaults)) = sort_opt nav_defaults"
    by (simp add: plugin_with_def)
  have u: "\<not> fst (filterObjects (plugin_with unfiltered) xs ty)" for xs ty
    by (simp add: filterObjects_def plugin_with_def unfiltered_def)
  have n: "length (snd (filterObjects (plugin_with unfiltered)
                     (categories example_collection) Categories)) = 1"
    by (simp add: filterObjects_def plugin_with_def unfiltered_def example_collection_def)
  have a: "filter (\<lambda>a. a \<notin> set (fst (sortArticles (plugin_with unfiltered) example_collection)))
             (sortObjects (plugin_with unfiltered) (articles example_collection) Articles) = []"
    unfolding filter_empty_conv unfiltered_example set_sortObjects
    by (simp add: example_collection_def)
  from caller_arrays_after_sortArticles [of "plugin_with nav_defaults" example_collection] d
       caller_arrays_after_sortArticles [of "plugin_with unfiltered" example_collection] u n a
  show ?thesis by simp
qed

text \<open>
  Claim C10 as stated fails for the articles: without an article filter the caller's
  articles array of the example is left empty, not reversed and sorted.
\<close>

theorem unfiltered_articles_are_spliced:
  "articles (snd (sortArticles (plugin_with unfiltered) example_collection)) = []
   \<and> sortObjects (plugin_with unfiltered) (rev (articles example_collection)) Articles
       = [article_101, article_100]"
  by (simp add: unfiltered_example)
     (simp add: plugin_with_def unfiltered_def nav_defaults_def
     example_collection_def sortObjects_def Util_spec_def sortByPosition_def
     article_100_def article_101_def)

text \<open>
  Claim C7 at the failing input: with the default filters and \<open>sort.articles\<close> set to
  \<open>null\<close>, the guard of \<open>_filterObjects\<close> (which reads \<open>options.sort\<close>) skips the article
  filter, and the draft article is in the sorted list; with the default sort settings it
  is filtered out.
\<close>

theorem draft_kept_when_article_sort_is_null:
  "filterObjects (plugin_with null_article_sort) [draft_100, article_101] Articles
     = (False, [draft_100, article_101])
   \<and> fst (sortArticles (plugin_with null_article_sort)
            (example_collection\<lparr>articles := [draft_100, article_101]\<rparr>))
     = [article_101, draft_100]
   \<and> fst (sortArticles (plugin_with nav_defaults)
            (example_collection\<lparr>articles := [draft_100, article_101]\<rparr>))
     = [article_101]"
  by (simp add: sortArticles_def plugin_with_def null_article_sort_def nav_defaults_def
     example_collection_def filterObjects_def sortObjects_def defaultSortingFunctions_def
     Util_spec_def sortByPosition_def not_draft_def Array_filter_def
     each_category_def each_section_def splice1_def Let_def draft_100_def
     category_1_def section_10_def section_11_def article_100_def article_101_def)

text \<open>
  Claim C4 at the documented example: with comparators that sort by ascending position,
  named in \<open>Util\<close> or given as functions, \<open>_sortArticles\<close> returns article 101 before
  article 100, while the forward group-by gives article 100 before article 101.
\<close>

theorem example_groups_come_out_reversed:
  "fst (sortArticles (plugin_with nav_defaults) example_collection)
     = [article_101, article_100]
   \<and> forward_group_by (plugin_with nav_defaults) example_collection
     = [article_100, article_101]
   \<and> fst (sortArticles ((plugin_with custom_sort)\<lparr>Util := (\<lambda>name. None)\<rparr>) example_collection)
     = [article_101, article_100]
   \<and> forward_group_by ((plugin_with custom_sort)\<lparr>Util := (\<lambda>name. None)\<rparr>) example_collection
     = [article_100, article_101]"
  by (simp add: sortArticles_def forward_group_by_def plugin_with_def custom_sort_def
     nav_defaults_def example_collection_def filterObjects_def sortObjects_def
     Util_spec_def sortByPosition_def compare_positions_def not_draft_def Array_filter_def
     each_category_def each_section_def splice1_def Let_def
     category_1_def section_10_def section_11_def article_100_def article_101_def)
end
